theory Spec2Isabelle
  imports Complex_Main "HOL-Library.Sublist"
begin

section \<open>Python text primitives used by the chatbot\<close>

text \<open>
  A Python \<open>str\<close> is a sequence of Unicode code points. A code point is modelled as
  an integer and a \<open>str\<close> as a list of them, so that the model covers every text the
  program can receive; an integer outside 0..0x10FFFF is in neither class below.
  \<open>ord\<close> and \<open>str\<close> write the code points of ASCII characters and literals.
\<close>

type_synonym codepoint = int

type_synonym str = "codepoint list"

abbreviation ord :: "char \<Rightarrow> codepoint" where
  "ord c \<equiv> of_char c"

abbreviation str :: "string \<Rightarrow> str" where
  "str s \<equiv> map of_char s"

text \<open>
  The two character classes of CPython, over all code points. Whitespace is one class
  for \<open>str.strip()\<close>, \<open>str.isspace()\<close> and \<open>\s\<close> in a \<open>str\<close> pattern of the \<open>re\<close> module:
  TAB, LF, VT, FF, CR, the separators U+001C..U+001F, SPACE, NEL (U+0085), NO-BREAK
  SPACE (U+00A0), U+1680, U+2000..U+200A, U+2028, U+2029, U+202F, U+205F and U+3000.
  \<open>\d\<close> in a \<open>str\<close> pattern matches the decimal digits of Unicode (category Nd), not only
  \<open>0\<close>..\<open>9\<close>: \<open>decimal_ranges\<close> lists them as CPython 3.11 has them (Unicode 14.0), each
  range with its first and last code point. Of this table the proofs below use only
  that a decimal digit is neither whitespace, nor a period, nor a square bracket.
\<close>

definition whitespace :: "codepoint list" where
  "whitespace =
       [9, 10, 11, 12, 13, 28, 29, 30, 31, 32, 133, 160, 5760, 8192, 8193, 8194, 8195,
        8196, 8197, 8198, 8199, 8200, 8201, 8202, 8232, 8233, 8239, 8287, 12288]"

definition isspace :: "codepoint \<Rightarrow> bool" where
  "isspace c \<longleftrightarrow> c \<in> set whitespace"

definition decimal_ranges :: "(codepoint \<times> codepoint) list" where
  "decimal_ranges =
       [(48, 57), (1632, 1641), (1776, 1785), (1984, 1993), (2406, 2415), (2534, 2543),
        (2662, 2671), (2790, 2799), (2918, 2927), (3046, 3055), (3174, 3183),
        (3302, 3311), (3430, 3439), (3558, 3567), (3664, 3673), (3792, 3801),
        (3872, 3881), (4160, 4169), (4240, 4249), (6112, 6121), (6160, 6169),
        (6470, 6479), (6608, 6617), (6784, 6793), (6800, 6809), (6992, 7001),
        (7088, 7097), (7232, 7241), (7248, 7257), (42528, 42537), (43216, 43225),
        (43264, 43273), (43472, 43481), (43504, 43513), (43600, 43609), (44016, 44025),
        (65296, 65305), (66720, 66729), (68912, 68921), (69734, 69743), (69872, 69881),
        (69942, 69951), (70096, 70105), (70384, 70393), (70736, 70745), (70864, 70873),
        (71248, 71257), (71360, 71369), (71472, 71481), (71904, 71913), (72016, 72025),
        (72784, 72793), (73040, 73049), (73120, 73129), (92768, 92777), (92864, 92873),
        (93008, 93017), (120782, 120831), (123200, 123209), (123632, 123641),
        (125264, 125273), (130032, 130041)]"

definition isdecimal :: "codepoint \<Rightarrow> bool" where
  "isdecimal c \<longleftrightarrow> (\<exists>(lo, hi)\<in>set decimal_ranges. lo \<le> c \<and> c \<le> hi)"

text \<open>\<open>str.strip()\<close> without argument: whitespace is dropped at both ends.\<close>

definition strip :: "str \<Rightarrow> str" where
  "strip s = rev (dropWhile isspace (rev (dropWhile isspace s)))"

subsection \<open>The fragment of regular expressions the program uses\<close>

text \<open>
  The three patterns of \<open>clean_response\<close> are sequences of items, each a single
  character, \<open>\d\<close> or \<open>\s\<close>, possibly under a greedy \<open>+\<close>. \<open>re_match\<close> is the
  backtracking matcher anchored at the start of the text: it returns the text left after
  the match the \<open>re\<close> module would choose there, \<open>None\<close> when there is none. Under \<open>+\<close>
  it takes one more character first and gives it back only when the rest of the pattern
  fails after it.
\<close>

datatype atom = Lit codepoint | Digit | Space

fun atom_matches :: "atom \<Rightarrow> codepoint \<Rightarrow> bool" where
  "atom_matches (Lit x) c = (c = x)"
| "atom_matches Digit c = isdecimal c"
| "atom_matches Space c = isspace c"

datatype item = One atom | Plus atom

type_synonym pattern = "item list"

fun re_match :: "pattern \<Rightarrow> str \<Rightarrow> str option" where
  "re_match [] s = Some s"
| "re_match (One a # p) [] = None"
| "re_match (One a # p) (c # cs) = (if atom_matches a c then re_match p cs else None)"
| "re_match (Plus a # p) [] = None"
| "re_match (Plus a # p) (c # cs) =
     (if atom_matches a c
      then (case re_match (Plus a # p) cs of
              Some rest \<Rightarrow> Some rest
            | None \<Rightarrow> re_match p cs)
      else None)"

text \<open>
  \<open>re.sub(pattern, repl, text)\<close> with a plain replacement text: the text is scanned from
  the left; where the pattern matches, the replacement is emitted and the scan goes on
  after the match; elsewhere the character is copied. A match of length zero emits the
  replacement and copies the next character; no pattern of this program has one.
\<close>

fun re_sub :: "pattern \<Rightarrow> str \<Rightarrow> str \<Rightarrow> str" where
  "re_sub p repl [] = (case re_match p [] of Some _ \<Rightarrow> repl | None \<Rightarrow> [])"
| "re_sub p repl (c # cs) =
     (case re_match p (c # cs) of
        None \<Rightarrow> c # re_sub p repl cs
      | Some rest \<Rightarrow>
          if length rest < length (c # cs) then repl @ re_sub p repl rest
          else repl @ c # re_sub p repl cs)"

section \<open>The reply sanitizer\<close>

text \<open>The patterns \<open>\[doc\d+\]\<close>, \<open>\s+\.\<close> and \<open>\s+\<close>.\<close>

definition citation_pattern :: pattern where
  "citation_pattern =
     [One (Lit (ord CHR ''['')), One (Lit (ord CHR ''d'')), One (Lit (ord CHR ''o'')),
      One (Lit (ord CHR ''c'')), Plus Digit, One (Lit (ord CHR '']''))]"

definition space_period_pattern :: pattern where
  "space_period_pattern = [Plus Space, One (Lit (ord CHR ''.''))]"

definition spaces_pattern :: pattern where
  "spaces_pattern = [Plus Space]"

definition clean_response :: "str \<Rightarrow> str" where
  "clean_response text =
     (let text1 = re_sub citation_pattern [] text;
          text2 = re_sub space_period_pattern (str ''.'') text1
      in strip (re_sub spaces_pattern (str '' '') text2))"

section \<open>Configuration, clock and completion service\<close>

text \<open>
  The values read from the process environment at import time. \<open>os.getenv\<close> yields
  \<open>None\<close> for a variable that is not set.
\<close>

record config =
  ENDPOINT_URL :: "str option"
  DEPLOYMENT_NAME :: "str option"
  AZURE_OPENAI_API_KEY :: "str option"
  SEARCH_ENDPOINT :: "str option"
  SEARCH_KEY :: "str option"
  SEARCH_INDEX_NAME :: "str option"

text \<open>The keyword arguments of \<open>client.chat.completions.create\<close>.\<close>

record api_message =
  message_role :: str
  message_content :: str

record authentication =
  auth_type :: str
  auth_key :: "str option"

record search_parameters =
  endpoint :: "str option"
  index_name :: "str option"
  semantic_configuration :: str
  query_type :: str
  fields_mapping :: "(str \<times> str) list"
  in_scope :: bool
  search_filter :: "str option"
  strictness :: int
  top_n_documents :: int
  search_authentication :: authentication

record data_source =
  source_type :: str
  parameters :: search_parameters

text \<open>
  The literals \<open>0.7\<close>, \<open>0.95\<close> and \<open>0.0\<close> of the source stand for the decimal numbers
  they denote; the program does no arithmetic on them.
\<close>

record request =
  model :: "str option"
  messages :: "api_message list"
  max_tokens :: int
  temperature :: real
  top_p :: real
  frequency_penalty :: real
  presence_penalty :: real
  data_sources :: "data_source list"

datatype error =
    EnvironmentError str
  | APIError str
  | IndexError
  | TypeError

text \<open>
  What the program reads of a completion is \<open>response.choices[i].message.content\<close>: a
  completion is the list of the contents of its choices, \<open>None\<close> for a choice without
  text.
\<close>

type_synonym completion = "str option list"

text \<open>
  The world outside the process: its environment variables, what the \<open>k\<close>-th reading of
  the clock gives (already formatted by \<open>strftime("%I:%M %p")\<close>), and how the service
  answers the \<open>k\<close>-th request, by raising or with a completion.
\<close>

record env =
  environ :: config
  clock :: "nat \<Rightarrow> str"
  create :: "nat \<Rightarrow> request \<Rightarrow> error + completion"

section \<open>Conversation state\<close>

record turn =
  role :: str
  content :: str
  timestamp :: str

text \<open>
  The module-level list \<open>conversation_history\<close>, with the number of clock readings made
  so far and the requests sent to the service so far, in order.
\<close>

record state =
  conversation_history :: "turn list"
  clock_reads :: nat
  requests :: "request list"

definition current_time :: "env \<Rightarrow> state \<Rightarrow> str \<times> state" where
  "current_time e s = (clock e (clock_reads s), s\<lparr>clock_reads := Suc (clock_reads s)\<rparr>)"

definition greeting :: str where
  "greeting = str ''Hello! How can I assist you today?''"

text \<open>
  Importing the module: both keys are required (\<open>if not KEY: raise\<close>, so an empty key
  fails too), then the history is seeded with the greeting. Between the two, the
  construction of the Flask application and of the \<open>AzureOpenAI\<close> client is taken to
  succeed; where the client library raises instead (no endpoint configured), the import
  fails and the process has no state at all, so the states reachable in the model
  include every state of the program.
\<close>

definition startup :: "env \<Rightarrow> error + state" where
  "startup e =
     (if AZURE_OPENAI_API_KEY (environ e) = None \<or> AZURE_OPENAI_API_KEY (environ e) = Some []
      then Inl (EnvironmentError (str ''AZURE_OPENAI_API_KEY is required but not set.''))
      else if SEARCH_KEY (environ e) = None \<or> SEARCH_KEY (environ e) = Some []
      then Inl (EnvironmentError (str ''SEARCH_KEY is required but not set.''))
      else
        let s0 = \<lparr>conversation_history = [], clock_reads = 0, requests = []\<rparr>;
            (now, s1) = current_time e s0
        in Inr (s1\<lparr>conversation_history :=
                   [\<lparr>role = str ''assistant'', content = greeting, timestamp = now\<rparr>]\<rparr>))"

section \<open>The turn executor\<close>

definition build_request :: "config \<Rightarrow> turn list \<Rightarrow> request" where
  "build_request cfg history =
     (let messages_for_api =
            map (\<lambda>m. \<lparr>message_role = role m, message_content = content m\<rparr>) history
      in \<lparr>model = DEPLOYMENT_NAME cfg,
          messages = messages_for_api,
          max_tokens = 800,
          temperature = 0.7,
          top_p = 0.95,
          frequency_penalty = 0.0,
          presence_penalty = 0.0,
          data_sources =
            [\<lparr>source_type = str ''azure_search'',
              parameters =
                \<lparr>endpoint = SEARCH_ENDPOINT cfg,
                 index_name = SEARCH_INDEX_NAME cfg,
                 semantic_configuration = str ''default'',
                 query_type = str ''simple'',
                 fields_mapping = [],
                 in_scope = True,
                 search_filter = None,
                 strictness = 3,
                 top_n_documents = 5,
                 search_authentication =
                   \<lparr>auth_type = str ''api_key'', auth_key = SEARCH_KEY cfg\<rparr>\<rparr>\<rparr>]\<rparr>)"

text \<open>
  \<open>get_chatbot_response\<close>: the user turn is appended before the service is called. An
  exception of the call, of \<open>choices[0]\<close> on an empty list (IndexError) or of
  \<open>clean_response\<close> on a content that is \<open>None\<close> (TypeError) leaves the function with
  the state as it is at that point.
\<close>

definition get_chatbot_response :: "env \<Rightarrow> str \<Rightarrow> state \<Rightarrow> (error + str) \<times> state" where
  "get_chatbot_response e user_message s =
     (let (now, s1) = current_time e s;
          s2 = s1\<lparr>conversation_history := conversation_history s1 @
                  [\<lparr>role = str ''user'', content = user_message, timestamp = now\<rparr>]\<rparr>;
          req = build_request (environ e) (conversation_history s2);
          s3 = s2\<lparr>requests := requests s2 @ [req]\<rparr>
      in case create e (length (requests s2)) req of
           Inl err \<Rightarrow> (Inl err, s3)
         | Inr response \<Rightarrow>
             (case response of
                [] \<Rightarrow> (Inl IndexError, s3)
              | None # _ \<Rightarrow> (Inl TypeError, s3)
              | Some reply # _ \<Rightarrow>
                  let assistant_reply = clean_response reply;
                      (now', s4) = current_time e s3;
                      s5 = s4\<lparr>conversation_history := conversation_history s4 @
                              [\<lparr>role = str ''assistant'', content = assistant_reply,
                                timestamp = now'\<rparr>]\<rparr>
                  in (Inr assistant_reply, s5)))"

section \<open>The routes\<close>

datatype http_method = GET | POST

datatype response =
    Redirect str
  | Rendered "turn list"
  | Static_file str

text \<open>\<open>request.form.get(name, default)\<close> on the submitted form.\<close>

definition form_get :: "(str \<rightharpoonup> str) \<Rightarrow> str \<Rightarrow> str \<Rightarrow> str" where
  "form_get form name dflt = (case form name of None \<Rightarrow> dflt | Some v \<Rightarrow> v)"

definition chat :: "env \<Rightarrow> http_method \<Rightarrow> (str \<rightharpoonup> str) \<Rightarrow> state \<Rightarrow> (error + response) \<times> state" where
  "chat e verb form s =
     (if verb = POST then
        let user_q = strip (form_get form (str ''question'') [])
        in if user_q \<noteq> [] then
             (case get_chatbot_response e user_q s of
                (Inl err, s') \<Rightarrow> (Inl err, s')
              | (Inr _, s') \<Rightarrow> (Inr (Redirect (str ''/chat'')), s'))
           else (Inr (Redirect (str ''/chat'')), s)
      else (Inr (Rendered (conversation_history s)), s))"

definition home :: "state \<Rightarrow> response \<times> state" where
  "home s = (Static_file (str ''index.html''), s)"

definition reset :: "env \<Rightarrow> state \<Rightarrow> response \<times> state" where
  "reset e s =
     (let (now, s1) = current_time e s
      in (Redirect (str ''/chat''),
          s1\<lparr>conversation_history :=
               [\<lparr>role = str ''assistant'', content = greeting, timestamp = now\<rparr>]\<rparr>))"

text \<open>
  The states the process can be in after operations that completed: the import, any
  request to \<open>/chat\<close> that returned a response (a page view, an empty submission, a
  submission the service answered), the landing page and resets.
\<close>

inductive reachable :: "env \<Rightarrow> state \<Rightarrow> bool" for e :: env where
  seeded: "startup e = Inr s \<Longrightarrow> reachable e s"
| chatted: "reachable e s \<Longrightarrow> chat e verb form s = (Inr r, s') \<Longrightarrow> reachable e s'"
| visited: "reachable e s \<Longrightarrow> home s = (r, s') \<Longrightarrow> reachable e s'"
| cleared: "reachable e s \<Longrightarrow> reset e s = (r, s') \<Longrightarrow> reachable e s'"

section \<open>Predicates of the specification\<close>

text \<open>
  A citation marker is \<open>[doc\<close>, one or more decimal digits and \<open>]\<close>, a decimal digit
  being any code point of the class \<open>isdecimal\<close> that \<open>\d\<close> matches: the digits of every
  script of Unicode, \<open>0\<close>..\<open>9\<close> among them. \<open>citation_prefix\<close> says that a text begins
  with a marker, \<open>has_citation\<close> that one occurs somewhere in it.
\<close>

definition citation_prefix :: "str \<Rightarrow> bool" where
  "citation_prefix s \<longleftrightarrow>
     take 4 s = str ''[doc'' \<and> takeWhile isdecimal (drop 4 s) \<noteq> [] \<and>
     take 1 (dropWhile isdecimal (drop 4 s)) = str '']''"

fun has_citation :: "str \<Rightarrow> bool" where
  "has_citation [] = False"
| "has_citation (c # cs) = (citation_prefix (c # cs) \<or> has_citation cs)"

text \<open>
  A marker holds no whitespace and no period: whether a text begins with a marker is
  decided by the characters before its first whitespace or period.
\<close>

definition solid :: "codepoint \<Rightarrow> bool" where
  "solid c \<longleftrightarrow> \<not> isspace c \<and> c \<noteq> ord CHR ''.''"

text \<open>
  A text with citation markers inserted: each piece \<open>(t, n)\<close> stands for the text \<open>t\<close>
  followed by the marker of number \<open>n\<close>, and \<open>t'\<close> is the text after the last marker.
  Without its markers the text is \<open>concat (map fst pieces) @ t'\<close>.
\<close>

fun with_citations :: "(str \<times> str) list \<Rightarrow> str \<Rightarrow> str" where
  "with_citations [] t = t"
| "with_citations ((t, n) # pieces) t' = t @ str ''[doc'' @ n @ str '']'' @ with_citations pieces t'"

text \<open>
  The shape of a transcript: the seeded greeting of the assistant, then user turns each
  followed by one assistant turn.
\<close>

fun paired :: "turn list \<Rightarrow> bool" where
  "paired [] = True"
| "paired [u] = False"
| "paired (u # a # rest) = (role u = str ''user'' \<and> role a = str ''assistant'' \<and> paired rest)"

definition well_formed :: "turn list \<Rightarrow> bool" where
  "well_formed h =
     (case h of
        [] \<Rightarrow> False
      | g # rest \<Rightarrow> role g = str ''assistant'' \<and> content g = greeting \<and> paired rest)"

section \<open>Example runs\<close>

definition example_config :: config where
  "example_config =
     \<lparr>ENDPOINT_URL = Some (str ''https://example.openai.azure.com''),
      DEPLOYMENT_NAME = Some (str ''gpt-4o''),
      AZURE_OPENAI_API_KEY = Some (str ''k1''),
      SEARCH_ENDPOINT = Some (str ''https://example.search.windows.net''),
      SEARCH_KEY = Some (str ''k2''),
      SEARCH_INDEX_NAME = Some (str ''site'')\<rparr>"

text \<open>A service that answers every request with one candidate, and one that raises.\<close>

definition answering_env :: env where
  "answering_env =
     \<lparr>environ = example_config,
      clock = (\<lambda>k. (str ''10:05 AM'')),
      create = (\<lambda>k req. Inr [Some (str ''We offer consulting. [doc1]'')])\<rparr>"

definition failing_env :: env where
  "failing_env =
     \<lparr>environ = example_config,
      clock = (\<lambda>k. (str ''10:05 AM'')),
      create = (\<lambda>k req. Inl (APIError (str ''Connection error.'')))\<rparr>"

definition seeded_state :: state where
  "seeded_state =
     \<lparr>conversation_history =
        [\<lparr>role = str ''assistant'', content = str ''Hello! How can I assist you today?'',
          timestamp = str ''10:05 AM''\<rparr>],
      clock_reads = 1,
      requests = []\<rparr>"

section \<open>The transcript under the operations\<close>

lemma paired_append: "paired xs \<Longrightarrow> paired ys \<Longrightarrow> paired (xs @ ys)"
  by (induction xs rule: paired.induct) auto

lemma well_formed_append: "well_formed h \<Longrightarrow> paired ys \<Longrightarrow> well_formed (h @ ys)"
  by (cases h) (auto simp: well_formed_def paired_append)

lemma paired_nth:
  "paired xs \<Longrightarrow>
     even (length xs) \<and>
     (\<forall>i<length xs. role (xs ! i) = (if even i then (str ''user'') else (str ''assistant'')))"
proof (induction xs rule: paired.induct)
  case (3 u a rest)
  then have ih: "even (length rest)"
    "\<And>i. i < length rest \<Longrightarrow> role (rest ! i) = (if even i then (str ''user'') else (str ''assistant''))"
    by auto
  have "role ((u # a # rest) ! i) = (if even i then (str ''user'') else (str ''assistant''))"
    if "i < length (u # a # rest)" for i
  proof (cases i)
    case 0
    then show ?thesis using 3 by simp
  next
    case (Suc j)
    show ?thesis
    proof (cases j)
      case 0
      then show ?thesis using 3 Suc by simp
    next
      case (Suc k)
      then show ?thesis using ih(2)[of k] that \<open>i = Suc j\<close> by simp
    qed
  qed
  then show ?case using ih(1) by simp
qed simp_all

lemma get_chatbot_response_ok:
  assumes "create e (length (requests s))
             (build_request (environ e) (conversation_history s @
                [\<lparr>role = str ''user'', content = user_message,
                  timestamp = clock e (clock_reads s)\<rparr>]))
           = Inr (Some reply # others)"
  shows "get_chatbot_response e user_message s =
           (Inr (clean_response reply),
            s\<lparr>conversation_history := conversation_history s @
                 [\<lparr>role = str ''user'', content = user_message,
                   timestamp = clock e (clock_reads s)\<rparr>,
                  \<lparr>role = str ''assistant'', content = clean_response reply,
                    timestamp = clock e (Suc (clock_reads s))\<rparr>],
               clock_reads := Suc (Suc (clock_reads s)),
               requests := requests s @
                 [build_request (environ e) (conversation_history s @
                    [\<lparr>role = str ''user'', content = user_message,
                      timestamp = clock e (clock_reads s)\<rparr>])]\<rparr>)"
  using assms by (simp add: get_chatbot_response_def current_time_def Let_def)

lemma get_chatbot_response_history:
  "\<exists>rest. conversation_history (snd (get_chatbot_response e user_message s)) =
     conversation_history s @
       \<lparr>role = str ''user'', content = user_message, timestamp = clock e (clock_reads s)\<rparr> # rest"
  by (simp add: get_chatbot_response_def current_time_def Let_def
      split: sum.splits list.splits option.splits)

lemma get_chatbot_response_Inr:
  assumes "get_chatbot_response e user_message s = (Inr x, s')"
  shows "\<exists>u a. conversation_history s' = conversation_history s @ [u, a] \<and>
           role u = str ''user'' \<and> role a = str ''assistant''"
  using assms
  by (auto simp add: get_chatbot_response_def current_time_def Let_def
      split: sum.splits list.splits option.splits)

lemma chat_Inr_history:
  assumes "chat e verb form s = (Inr r, s')"
  shows "conversation_history s' = conversation_history s \<or>
         (\<exists>u a. conversation_history s' = conversation_history s @ [u, a] \<and>
            role u = str ''user'' \<and> role a = str ''assistant'')"
  using assms
  by (auto simp: chat_def Let_def split: if_splits prod.splits sum.splits
      dest: get_chatbot_response_Inr)

lemma reachable_well_formed: "reachable e s \<Longrightarrow> well_formed (conversation_history s)"
proof (induction rule: reachable.induct)
  case (seeded s)
  then show ?case
    by (auto simp: startup_def current_time_def well_formed_def split: if_splits)
next
  case (chatted s verb form r s')
  from chat_Inr_history[OF chatted.hyps(2)] chatted.IH show ?case
    by (auto intro!: well_formed_append)
next
  case (visited s r s')
  then show ?case by (simp add: home_def)
next
  case (cleared s r s')
  then show ?case by (auto simp: reset_def current_time_def well_formed_def)
qed

lemma chat_prefix:
  "prefix (conversation_history s) (conversation_history (snd (chat e verb form s)))"
  using get_chatbot_response_history[of e "strip (form_get form (str ''question'') [])" s]
  by (auto simp: chat_def Let_def split: prod.splits sum.splits)

lemma strip_ends:
  assumes "strip s \<noteq> []"
  shows "\<not> isspace (hd (strip s))" and "\<not> isspace (last (strip s))"
proof -
  let ?t = "dropWhile isspace s"
  let ?r = "dropWhile isspace (rev ?t)"
  from assms have r: "?r \<noteq> []" by (simp add: strip_def)
  then have t: "?t \<noteq> []" by (cases "?t") simp_all
  have "\<not> isspace (hd ?r)" using r by (rule hd_dropWhile)
  then show "\<not> isspace (last (strip s))" using r by (simp add: strip_def last_rev)
  have "last ?r = last (rev ?t)"
    using r by (metis (no_types) takeWhile_dropWhile_id last_appendR)
  also have "\<dots> = hd ?t" using t by (simp add: last_rev)
  finally have "hd (strip s) = hd ?t" using r by (simp add: strip_def hd_rev)
  moreover have "\<not> isspace (hd ?t)" using t by (rule hd_dropWhile)
  ultimately show "\<not> isspace (hd (strip s))" by simp
qed

section \<open>The claims about the transcript\<close>

text \<open>
  Claim C1. When the service answers the request of a turn with a first candidate whose
  text is \<open>reply\<close>, \<open>get_chatbot_response\<close> returns the sanitized reply and leaves the
  transcript it found with two turns added at its end: the user turn carrying the text
  it was given, then the assistant turn carrying the sanitized reply. The text given
  may be any text, those that are not empty after trimming included.
\<close>

theorem C1_successful_turn:
  assumes "create e (length (requests s))
             (build_request (environ e) (conversation_history s @
                [\<lparr>role = str ''user'', content = user_message,
                  timestamp = clock e (clock_reads s)\<rparr>]))
           = Inr (Some reply # others)"
  shows "fst (get_chatbot_response e user_message s) = Inr (clean_response reply) \<and>
         conversation_history (snd (get_chatbot_response e user_message s)) =
           conversation_history s @
             [\<lparr>role = str ''user'', content = user_message,
               timestamp = clock e (clock_reads s)\<rparr>,
              \<lparr>role = str ''assistant'', content = clean_response reply,
                timestamp = clock e (Suc (clock_reads s))\<rparr>]"
  by (simp add: get_chatbot_response_ok[OF assms])

theorem C1_successful_turn_witness:
  "fst (get_chatbot_response answering_env (str ''What services do you offer?'') seeded_state) =
     Inr (str ''We offer consulting.'') \<and>
   conversation_history
     (snd (get_chatbot_response answering_env (str ''What services do you offer?'') seeded_state)) =
     [\<lparr>role = str ''assistant'', content = str ''Hello! How can I assist you today?'',
       timestamp = str ''10:05 AM''\<rparr>,
      \<lparr>role = str ''user'', content = str ''What services do you offer?'', timestamp = str ''10:05 AM''\<rparr>,
      \<lparr>role = str ''assistant'', content = str ''We offer consulting.'', timestamp = str ''10:05 AM''\<rparr>]"
proof -
  have call: "create answering_env (length (requests seeded_state))
      (build_request (environ answering_env) (conversation_history seeded_state @
         [\<lparr>role = str ''user'', content = str ''What services do you offer?'',
           timestamp = clock answering_env (clock_reads seeded_state)\<rparr>]))
     = Inr (Some (str ''We offer consulting. [doc1]'') # [])"
    by (simp add: answering_env_def)
  have clean: "clean_response (str ''We offer consulting. [doc1]'') = str ''We offer consulting.''"
    by code_simp
  show ?thesis
    using C1_successful_turn[OF call]
    by (simp add: clean[simplified] answering_env_def seeded_state_def)
qed

text \<open>
  Claim C3. In every state reached from the import by operations that completed, the
  transcript starts with the seeded greeting of the assistant and goes on with user
  turns each followed by one assistant turn: after the greeting the roles alternate,
  user first, and their number is even. A request to \<open>/chat\<close> or to the landing page
  keeps the turns it found, in their places, at the front of the transcript; only a
  reset drops turns.
\<close>

theorem C3_transcript_shape:
  assumes "reachable e s"
  shows "(\<exists>now rest.
            conversation_history s =
              \<lparr>role = str ''assistant'', content = str ''Hello! How can I assist you today?'',
                timestamp = now\<rparr> # rest \<and>
            even (length rest) \<and>
            (\<forall>i<length rest. role (rest ! i) = (if even i then (str ''user'') else (str ''assistant'')))) \<and>
         (\<forall>verb form.
            prefix (conversation_history s) (conversation_history (snd (chat e verb form s)))) \<and>
         conversation_history (snd (home s)) = conversation_history s"
proof -
  from assms have "well_formed (conversation_history s)" by (rule reachable_well_formed)
  then obtain g rest where h: "conversation_history s = g # rest"
    and g: "role g = str ''assistant''" "content g = greeting" and rest: "paired rest"
    by (auto simp: well_formed_def split: list.splits)
  have "g = \<lparr>role = str ''assistant'', content = str ''Hello! How can I assist you today?'',
             timestamp = timestamp g\<rparr>"
    using g by (simp add: greeting_def)
  with h paired_nth[OF rest] have "\<exists>now rest.
            conversation_history s =
              \<lparr>role = str ''assistant'', content = str ''Hello! How can I assist you today?'',
                timestamp = now\<rparr> # rest \<and>
            even (length rest) \<and>
            (\<forall>i<length rest. role (rest ! i) = (if even i then (str ''user'') else (str ''assistant'')))"
    by metis
  then show ?thesis by (simp add: chat_prefix home_def)
qed

theorem C3_transcript_shape_witness:
  "reachable answering_env
     (snd (chat answering_env POST [(str ''question'') \<mapsto> (str ''What services do you offer?'')]
        seeded_state)) \<and>
   conversation_history
     (snd (chat answering_env POST [(str ''question'') \<mapsto> (str ''What services do you offer?'')]
        seeded_state)) =
     [\<lparr>role = str ''assistant'', content = str ''Hello! How can I assist you today?'',
       timestamp = str ''10:05 AM''\<rparr>,
      \<lparr>role = str ''user'', content = str ''What services do you offer?'', timestamp = str ''10:05 AM''\<rparr>,
      \<lparr>role = str ''assistant'', content = str ''We offer consulting.'', timestamp = str ''10:05 AM''\<rparr>] \<and>
   (\<exists>now rest.
      conversation_history
        (snd (chat answering_env POST [(str ''question'') \<mapsto> (str ''What services do you offer?'')]
           seeded_state)) =
        \<lparr>role = str ''assistant'', content = str ''Hello! How can I assist you today?'',
          timestamp = now\<rparr> # rest \<and>
      even (length rest) \<and>
      (\<forall>i<length rest. role (rest ! i) = (if even i then (str ''user'') else (str ''assistant''))))"
proof -
  let ?form = "[(str ''question'') \<mapsto> (str ''What services do you offer?'')]"
  have start: "startup answering_env = Inr seeded_state"
    by (simp add: startup_def answering_env_def example_config_def current_time_def
        seeded_state_def greeting_def)
  have q: "strip (form_get ?form (str ''question'') []) = str ''What services do you offer?''"
    by (simp add: form_get_def strip_def isspace_def whitespace_def)
  have clean: "clean_response (str ''We offer consulting. [doc1]'') = str ''We offer consulting.''"
    by code_simp
  have run: "get_chatbot_response answering_env (str ''What services do you offer?'') seeded_state =
      (Inr (str ''We offer consulting.''),
       seeded_state\<lparr>conversation_history := conversation_history seeded_state @
          [\<lparr>role = str ''user'', content = str ''What services do you offer?'',
            timestamp = str ''10:05 AM''\<rparr>,
           \<lparr>role = str ''assistant'', content = str ''We offer consulting.'',
             timestamp = str ''10:05 AM''\<rparr>],
         clock_reads := 3,
         requests := [build_request example_config (conversation_history seeded_state @
           [\<lparr>role = str ''user'', content = str ''What services do you offer?'',
             timestamp = str ''10:05 AM''\<rparr>])]\<rparr>)"
    using get_chatbot_response_ok[of answering_env seeded_state
        "(str ''What services do you offer?'')" "(str ''We offer consulting. [doc1]'')" "[]"]
    by (simp add: clean[simplified] answering_env_def seeded_state_def)
  have step: "chat answering_env POST ?form seeded_state =
      (Inr (Redirect (str ''/chat'')), snd (chat answering_env POST ?form seeded_state))"
    by (simp add: chat_def q[simplified] run[simplified] Let_def)
  have reach: "reachable answering_env (snd (chat answering_env POST ?form seeded_state))"
    by (rule chatted[OF seeded[OF start] step])
  have hist: "conversation_history (snd (chat answering_env POST ?form seeded_state)) =
     [\<lparr>role = str ''assistant'', content = str ''Hello! How can I assist you today?'',
       timestamp = str ''10:05 AM''\<rparr>,
      \<lparr>role = str ''user'', content = str ''What services do you offer?'', timestamp = str ''10:05 AM''\<rparr>,
      \<lparr>role = str ''assistant'', content = str ''We offer consulting.'', timestamp = str ''10:05 AM''\<rparr>]"
  proof -
    have "snd (chat answering_env POST ?form seeded_state) =
        snd (get_chatbot_response answering_env (str ''What services do you offer?'') seeded_state)"
      by (simp add: chat_def q[simplified] run[simplified] Let_def)
    then have "conversation_history (snd (chat answering_env POST ?form seeded_state)) =
        conversation_history seeded_state @
          [\<lparr>role = str ''user'', content = str ''What services do you offer?'',
            timestamp = str ''10:05 AM''\<rparr>,
           \<lparr>role = str ''assistant'', content = str ''We offer consulting.'',
             timestamp = str ''10:05 AM''\<rparr>]"
      by (simp add: run[simplified])
    then show ?thesis by (simp add: seeded_state_def)
  qed
  show ?thesis
    using reach hist C3_transcript_shape[OF reach] by blast
qed

text \<open>
  Claim C4. A submission whose \<open>question\<close> field is empty after trimming (absent, empty
  or whitespace only) is answered with the redirect and leaves the whole state as it
  was: the transcript, the requests sent to the service and the clock readings.
\<close>

theorem C4_empty_submission_is_noop:
  assumes "strip (form_get form (str ''question'') []) = []"
  shows "chat e POST form s = (Inr (Redirect (str ''/chat'')), s)"
  using assms by (simp add: chat_def)

theorem C4_empty_submission_is_noop_witness:
  "strip (form_get [(str ''question'') \<mapsto> (str ''   '')] (str ''question'') []) = [] \<and>
   chat answering_env POST [(str ''question'') \<mapsto> (str ''   '')] seeded_state =
     (Inr (Redirect (str ''/chat'')), seeded_state)"
proof -
  have blank: "strip (form_get [(str ''question'') \<mapsto> (str ''   '')] (str ''question'') []) = []"
    by (simp add: form_get_def strip_def isspace_def whitespace_def)
  show ?thesis using blank C4_empty_submission_is_noop[OF blank] by simp
qed

text \<open>
  Claim C5. After a reset, whatever the state before, the transcript is one turn: the
  assistant's fixed greeting, stamped with a reading of the clock made by the reset.
\<close>

theorem C5_reset_reseeds:
  "conversation_history (snd (reset e s)) =
     [\<lparr>role = str ''assistant'', content = str ''Hello! How can I assist you today?'',
       timestamp = clock e (clock_reads s)\<rparr>] \<and>
   length (conversation_history (snd (reset e s))) = 1 \<and>
   clock_reads (snd (reset e s)) = Suc (clock_reads s)"
  by (simp add: reset_def current_time_def greeting_def)

text \<open>
  Claim C8. Whatever the state, \<open>get_chatbot_response\<close> sends one request. Its messages
  are the role and content of every turn of the transcript, the user turn just added
  included, in order and without timestamps; its decoding parameters are 800 tokens,
  temperature 0.7, top-p 0.95 and no frequency or presence penalty; its one data source
  asks for the simple query type, 5 documents and strictness 3.
\<close>

theorem C8_outbound_request:
  "\<exists>req source.
     requests (snd (get_chatbot_response e user_message s)) = requests s @ [req] \<and>
     messages req =
       map (\<lambda>m. \<lparr>message_role = role m, message_content = content m\<rparr>)
         (conversation_history s @
            [\<lparr>role = str ''user'', content = user_message,
              timestamp = clock e (clock_reads s)\<rparr>]) \<and>
     max_tokens req = 800 \<and>
     temperature req = 0.7 \<and>
     top_p req = 0.95 \<and>
     frequency_penalty req = 0 \<and>
     presence_penalty req = 0 \<and>
     data_sources req = [source] \<and>
     query_type (parameters source) = str ''simple'' \<and>
     top_n_documents (parameters source) = 5 \<and>
     strictness (parameters source) = 3"
proof -
  let ?req = "build_request (environ e) (conversation_history s @
            [\<lparr>role = str ''user'', content = user_message,
              timestamp = clock e (clock_reads s)\<rparr>])"
  have "requests (snd (get_chatbot_response e user_message s)) = requests s @ [?req]"
    by (simp add: get_chatbot_response_def current_time_def Let_def
        split: sum.splits list.splits option.splits)
  then show ?thesis
    by (simp add: build_request_def)
qed

text \<open>
  Claim C9. When the call of the service raises, returns no candidate, or returns a
  first candidate without text, \<open>get_chatbot_response\<close> fails and the transcript is the
  one it found with the user turn added: one turn longer, ending with a user turn that
  no assistant turn follows.
\<close>

theorem C9_failed_call_keeps_user_turn:
  assumes "create e (length (requests s))
             (build_request (environ e) (conversation_history s @
                [\<lparr>role = str ''user'', content = user_message,
                  timestamp = clock e (clock_reads s)\<rparr>])) = outcome"
    and "(\<exists>err. outcome = Inl err) \<or> outcome = Inr [] \<or> (\<exists>others. outcome = Inr (None # others))"
  shows "(\<exists>err. fst (get_chatbot_response e user_message s) = Inl err) \<and>
         conversation_history (snd (get_chatbot_response e user_message s)) =
           conversation_history s @
             [\<lparr>role = str ''user'', content = user_message,
               timestamp = clock e (clock_reads s)\<rparr>] \<and>
         length (conversation_history (snd (get_chatbot_response e user_message s))) =
           length (conversation_history s) + 1 \<and>
         role (last (conversation_history (snd (get_chatbot_response e user_message s)))) =
           (str ''user'')"
  using assms
  by (auto simp add: get_chatbot_response_def current_time_def Let_def)

theorem C9_failed_call_keeps_user_turn_witness:
  "fst (get_chatbot_response failing_env (str ''What services do you offer?'') seeded_state) =
     Inl (APIError (str ''Connection error.'')) \<and>
   conversation_history
     (snd (get_chatbot_response failing_env (str ''What services do you offer?'') seeded_state)) =
     [\<lparr>role = str ''assistant'', content = str ''Hello! How can I assist you today?'',
       timestamp = str ''10:05 AM''\<rparr>,
      \<lparr>role = str ''user'', content = str ''What services do you offer?'', timestamp = str ''10:05 AM''\<rparr>]"
proof -
  have call: "create failing_env (length (requests seeded_state))
      (build_request (environ failing_env) (conversation_history seeded_state @
         [\<lparr>role = str ''user'', content = str ''What services do you offer?'',
           timestamp = clock failing_env (clock_reads seeded_state)\<rparr>]))
     = Inl (APIError (str ''Connection error.''))"
    by (simp add: failing_env_def)
  have mode: "(\<exists>err. (Inl (APIError (str ''Connection error.'')) :: error + completion) = Inl err) \<or>
      (Inl (APIError (str ''Connection error.'')) :: error + completion) = Inr [] \<or>
      (\<exists>others. (Inl (APIError (str ''Connection error.'')) :: error + completion) = Inr (None # others))"
    by simp
  have err: "fst (get_chatbot_response failing_env (str ''What services do you offer?'') seeded_state) =
     Inl (APIError (str ''Connection error.''))"
    by (simp add: get_chatbot_response_def current_time_def Let_def failing_env_def)
  show ?thesis
    using err C9_failed_call_keeps_user_turn[OF call mode]
    by (simp add: failing_env_def seeded_state_def)
qed

text \<open>
  Claim C10. On a submission to \<open>/chat\<close> that is not empty after trimming, the turn
  added to the transcript is a user turn whose content is the trimmed \<open>question\<close>
  field; it neither starts nor ends with whitespace. This holds whether or not the
  service answers.
\<close>

theorem C10_stored_question_is_trimmed:
  assumes "strip (form_get form (str ''question'') []) \<noteq> []"
  shows "length (conversation_history s)
           < length (conversation_history (snd (chat e POST form s))) \<and>
         conversation_history (snd (chat e POST form s)) ! length (conversation_history s) =
           \<lparr>role = str ''user'', content = strip (form_get form (str ''question'') []),
             timestamp = clock e (clock_reads s)\<rparr> \<and>
         \<not> isspace (hd (strip (form_get form (str ''question'') []))) \<and>
         \<not> isspace (last (strip (form_get form (str ''question'') [])))"
proof -
  let ?q = "strip (form_get form (str ''question'') [])"
  obtain rest where "conversation_history (snd (get_chatbot_response e ?q s)) =
     conversation_history s @
       \<lparr>role = str ''user'', content = ?q, timestamp = clock e (clock_reads s)\<rparr> # rest"
    using get_chatbot_response_history by blast
  moreover have "conversation_history (snd (chat e POST form s)) =
      conversation_history (snd (get_chatbot_response e ?q s))"
    using assms by (simp add: chat_def split: prod.splits sum.splits)
  ultimately show ?thesis using strip_ends[OF assms] by simp
qed

theorem C10_stored_question_is_trimmed_witness:
  "strip (form_get [(str ''question'') \<mapsto> (str ''  hi there '')] (str ''question'') []) = str ''hi there'' \<and>
   conversation_history
      (snd (chat answering_env POST [(str ''question'') \<mapsto> (str ''  hi there '')] seeded_state)) ! 1 =
     \<lparr>role = str ''user'', content = str ''hi there'', timestamp = str ''10:05 AM''\<rparr>"
proof -
  have q: "strip (form_get [(str ''question'') \<mapsto> (str ''  hi there '')] (str ''question'') []) = str ''hi there''"
    by (simp add: form_get_def strip_def isspace_def whitespace_def)
  then have ne: "strip (form_get [(str ''question'') \<mapsto> (str ''  hi there '')] (str ''question'') []) \<noteq> []"
    by simp
  show ?thesis
    using q C10_stored_question_is_trimmed[OF ne, of seeded_state answering_env]
    by (simp add: seeded_state_def answering_env_def)
qed

section \<open>What the three patterns match\<close>

text \<open>
  The facts about the two classes that the proofs use, at the code points of the
  period (46), the space (32), the square brackets (91, 93) and \<open>d\<close>, \<open>o\<close>, \<open>c\<close>
  (100, 111, 99).
\<close>

lemma not_space_period [simp]: "\<not> isspace 46"
  and not_space_bracket [simp]: "\<not> isspace 91"
  and not_space_closing [simp]: "\<not> isspace 93"
  and not_space_doc [simp]: "\<not> isspace 100" "\<not> isspace 111" "\<not> isspace 99"
  and space_space [simp]: "isspace 32"
  by (simp_all add: isspace_def whitespace_def)

lemma not_decimal_period [simp]: "\<not> isdecimal 46"
  and not_decimal_bracket [simp]: "\<not> isdecimal 91"
  and not_decimal_closing [simp]: "\<not> isdecimal 93"
  by (simp_all add: isdecimal_def decimal_ranges_def)

lemma whitespace_not_decimal: "\<forall>c\<in>set whitespace. \<not> isdecimal c"
  by code_simp

lemma isspace_not_decimal: "isspace c \<Longrightarrow> \<not> isdecimal c"
  using whitespace_not_decimal by (simp add: isspace_def)

lemma atom_matches_Space: "atom_matches Space = isspace"
  and atom_matches_Digit: "atom_matches Digit = isdecimal"
  by (rule ext, simp)+

lemma re_match_lit:
  "re_match [One (Lit x)] s = (case s of [] \<Rightarrow> None | y # t \<Rightarrow> if y = x then Some t else None)"
  by (cases s) simp_all

lemma re_match_plus_any:
  "re_match [Plus a] s =
     (case s of [] \<Rightarrow> None
      | c # cs \<Rightarrow> if atom_matches a c then Some (dropWhile (atom_matches a) cs) else None)"
  by (induction s) (auto split: list.splits)

lemma re_match_plus:
  "re_match [Plus a] (c # cs) =
     (if atom_matches a c then Some (dropWhile (atom_matches a) cs) else None)"
  by (simp add: re_match_plus_any[of a "c # cs"] del: re_match.simps)

lemma re_match_plus_lit_any:
  assumes nx: "\<not> atom_matches a x"
  shows "re_match [Plus a, One (Lit x)] s =
     (case s of [] \<Rightarrow> None
      | c # cs \<Rightarrow>
          if atom_matches a c then re_match [One (Lit x)] (dropWhile (atom_matches a) cs)
          else None)"
proof (induction s)
  case Nil
  show ?case by simp
next
  case (Cons c cs)
  have step: "re_match [Plus a, One (Lit x)] (c # cs) =
      (if atom_matches a c
       then (case re_match [Plus a, One (Lit x)] cs of
               Some rest \<Rightarrow> Some rest
             | None \<Rightarrow> re_match [One (Lit x)] cs)
       else None)"
    by simp
  show ?case
  proof (cases cs)
    case Nil
    then show ?thesis by simp
  next
    case cs: (Cons d ds)
    show ?thesis
    proof (cases "atom_matches a d")
      case True
      with nx have "d \<noteq> x" by auto
      then have none: "re_match [One (Lit x)] (d # ds) = None" by simp
      have ih: "re_match [Plus a, One (Lit x)] (d # ds) =
          re_match [One (Lit x)] (dropWhile (atom_matches a) ds)"
        using Cons.IH True unfolding cs by simp
      have "re_match [Plus a, One (Lit x)] (c # d # ds) =
          (if atom_matches a c
           then re_match [One (Lit x)] (dropWhile (atom_matches a) ds) else None)"
        using step unfolding cs ih none by (simp split: option.splits)
      then show ?thesis unfolding cs using True by simp
    next
      case False
      have ih: "re_match [Plus a, One (Lit x)] (d # ds) = None"
        using Cons.IH False unfolding cs by simp
      have "re_match [Plus a, One (Lit x)] (c # d # ds) =
          (if atom_matches a c then re_match [One (Lit x)] (d # ds) else None)"
        using step unfolding cs ih by simp
      then show ?thesis unfolding cs using False by simp
    qed
  qed
qed

lemma re_match_plus_lit:
  assumes "\<not> atom_matches a x"
  shows "re_match [Plus a, One (Lit x)] (c # cs) =
     (if atom_matches a c then re_match [One (Lit x)] (dropWhile (atom_matches a) cs) else None)"
  by (simp add: re_match_plus_lit_any[OF assms, of "c # cs"] del: re_match.simps)

lemma spaces_match:
  "re_match spaces_pattern (c # cs) = (if isspace c then Some (dropWhile isspace cs) else None)"
  unfolding spaces_pattern_def re_match_plus atom_matches_Space by simp

lemma space_period_match:
  "re_match space_period_pattern (c # cs) =
     (if isspace c then re_match [One (Lit (ord CHR ''.''))] (dropWhile isspace cs) else None)"
proof -
  have "\<not> atom_matches Space (ord CHR ''.'')" by simp
  from re_match_plus_lit[OF this, of c cs] show ?thesis
    unfolding space_period_pattern_def atom_matches_Space by simp
qed

lemma citation_match:
  "re_match citation_pattern s =
     (if citation_prefix s then Some (drop 1 (dropWhile isdecimal (drop 4 s))) else None)"
proof -
  have nd: "\<not> atom_matches Digit (ord CHR '']'')" by simp
  show ?thesis
  proof (cases s)
    case Nil
    then show ?thesis by (simp add: citation_pattern_def citation_prefix_def)
  next
    case s1: (Cons a1 t1)
    show ?thesis
    proof (cases t1)
      case Nil
      then show ?thesis using s1 by (simp add: citation_pattern_def citation_prefix_def)
    next
      case s2: (Cons a2 t2)
      show ?thesis
      proof (cases t2)
        case Nil
        then show ?thesis using s1 s2 by (simp add: citation_pattern_def citation_prefix_def)
      next
        case s3: (Cons a3 t3)
        show ?thesis
        proof (cases t3)
          case Nil
          then show ?thesis using s1 s2 s3
            by (simp add: citation_pattern_def citation_prefix_def)
        next
          case s4: (Cons a4 t4)
          show ?thesis
          proof (cases t4)
            case Nil
            then show ?thesis using s1 s2 s3 s4
              by (simp add: citation_pattern_def citation_prefix_def)
          next
            case (Cons d ds)
            have "re_match [Plus Digit, One (Lit (ord CHR '']''))] (d # ds) =
                (if isdecimal d \<and> take 1 (dropWhile isdecimal ds) = str '']''
                 then Some (drop 1 (dropWhile isdecimal ds)) else None)"
            proof (cases "dropWhile isdecimal ds")
              case Nil
              show ?thesis unfolding re_match_plus_lit[OF nd] atom_matches_Digit Nil
                by simp
            next
              case (Cons y t)
              show ?thesis unfolding re_match_plus_lit[OF nd] atom_matches_Digit Cons
                by simp
            qed
            then show ?thesis using s1 s2 s3 s4 Cons
              by (auto simp: citation_pattern_def citation_prefix_def)
          qed
        qed
      qed
    qed
  qed
qed

lemma length_drop_dropWhile: "length (drop n (dropWhile P (drop m s))) \<le> length s - m - n"
proof -
  have "length (dropWhile P (drop m s)) \<le> length s - m"
    using length_dropWhile_le[of P "drop m s"] by simp
  then show ?thesis by simp
qed

lemma re_sub_spaces_Nil [simp]: "re_sub spaces_pattern r [] = []"
  by (simp add: spaces_pattern_def)

lemma re_sub_spaces_Cons:
  "re_sub spaces_pattern r (c # cs) =
     (if isspace c then r @ re_sub spaces_pattern r (dropWhile isspace cs)
      else c # re_sub spaces_pattern r cs)"
  using length_dropWhile_le[of isspace cs] by (simp add: spaces_match less_Suc_eq_le)

lemma re_sub_space_period_Nil [simp]: "re_sub space_period_pattern r [] = []"
  by (simp add: space_period_pattern_def)

lemma re_sub_space_period_Cons:
  "re_sub space_period_pattern r (c # cs) =
     (case re_match space_period_pattern (c # cs) of
        None \<Rightarrow> c # re_sub space_period_pattern r cs
      | Some rest \<Rightarrow> r @ re_sub space_period_pattern r rest)"
proof (cases "re_match space_period_pattern (c # cs)")
  case None
  then show ?thesis by simp
next
  case (Some rest)
  then have "length rest < length (dropWhile isspace cs)"
    by (auto simp: space_period_match re_match_lit split: if_splits list.splits)
  then have "length rest < length (c # cs)"
    using length_dropWhile_le[of isspace cs] by simp
  then show ?thesis using Some by simp
qed

lemma re_sub_citation_Nil [simp]: "re_sub citation_pattern r [] = []"
  by (simp add: citation_pattern_def)

lemma re_sub_citation_Cons:
  "re_sub citation_pattern r (c # cs) =
     (if citation_prefix (c # cs)
      then r @ re_sub citation_pattern r (drop 1 (dropWhile isdecimal (drop 4 (c # cs))))
      else c # re_sub citation_pattern r cs)"
proof -
  have "length (drop 1 (dropWhile isdecimal (drop 4 (c # cs)))) < length (c # cs)"
    using length_drop_dropWhile[of 1 isdecimal 4 "c # cs"] by simp
  then show ?thesis by (simp add: citation_match del: drop_Cons_numeral)
qed

declare re_sub.simps [simp del]

section \<open>The substitutions of the sanitizer, step by step\<close>

lemma spaces_induct [case_names Nil Space Other]:
  assumes "P []"
    and "\<And>c cs. isspace c \<Longrightarrow> P (dropWhile isspace cs) \<Longrightarrow> P (c # cs)"
    and "\<And>c cs. \<not> isspace c \<Longrightarrow> P cs \<Longrightarrow> P (c # cs)"
  shows "P u"
proof (induction u rule: length_induct)
  case (1 xs)
  show ?case
  proof (cases xs)
    case Nil
    then show ?thesis using assms(1) by simp
  next
    case (Cons c cs)
    have "length (dropWhile isspace cs) < length xs"
      using length_dropWhile_le[of isspace cs] Cons by simp
    with 1 have "P (dropWhile isspace cs)" by blast
    moreover have "P cs" using 1 Cons by simp
    ultimately show ?thesis using assms(2,3) Cons by (cases "isspace c") simp_all
  qed
qed

lemma space_period_induct [case_names Nil Match Other]:
  assumes "P []"
    and "\<And>c cs rest. re_match space_period_pattern (c # cs) = Some rest \<Longrightarrow> P rest \<Longrightarrow> P (c # cs)"
    and "\<And>c cs. re_match space_period_pattern (c # cs) = None \<Longrightarrow> P cs \<Longrightarrow> P (c # cs)"
  shows "P u"
proof (induction u rule: length_induct)
  case (1 xs)
  show ?case
  proof (cases xs)
    case Nil
    then show ?thesis using assms(1) by simp
  next
    case (Cons c cs)
    show ?thesis
    proof (cases "re_match space_period_pattern (c # cs)")
      case None
      moreover have "P cs" using 1 Cons by simp
      ultimately show ?thesis using assms(3) Cons by simp
    next
      case (Some rest)
      then have "length rest < length (dropWhile isspace cs)"
        by (auto simp: space_period_match re_match_lit split: if_splits list.splits)
      then have "length rest < length xs"
        using length_dropWhile_le[of isspace cs] Cons by simp
      with 1 have "P rest" by blast
      with Some show ?thesis using assms(2) Cons by simp
    qed
  qed
qed

lemma citation_induct [case_names Nil Match Other]:
  assumes "P []"
    and "\<And>c cs. citation_prefix (c # cs) \<Longrightarrow>
           P (drop 1 (dropWhile isdecimal (drop 4 (c # cs)))) \<Longrightarrow> P (c # cs)"
    and "\<And>c cs. \<not> citation_prefix (c # cs) \<Longrightarrow> P cs \<Longrightarrow> P (c # cs)"
  shows "P u"
proof (induction u rule: length_induct)
  case (1 xs)
  show ?case
  proof (cases xs)
    case Nil
    then show ?thesis using assms(1) by simp
  next
    case (Cons c cs)
    have "length (drop 1 (dropWhile isdecimal (drop 4 (c # cs)))) < length xs"
      using length_drop_dropWhile[of 1 isdecimal 4 "c # cs"] Cons by simp
    with 1 have "P (drop 1 (dropWhile isdecimal (drop 4 (c # cs))))" by blast
    moreover have "P cs" using 1 Cons by simp
    ultimately show ?thesis using assms(2,3) Cons by (cases "citation_prefix (c # cs)") simp_all
  qed
qed

lemma successively_dropWhile: "successively P xs \<Longrightarrow> successively P (dropWhile R xs)"
  using successively_append_iff[of P "takeWhile R xs" "dropWhile R xs"] by simp

lemma successively_tl: "successively P (x # xs) \<Longrightarrow> successively P xs"
  by (auto simp: successively_Cons)

lemma successively_strip: "successively P t \<Longrightarrow> successively P (strip t)"
proof -
  assume "successively P t"
  then have "successively P (dropWhile isspace t)" by (rule successively_dropWhile)
  then have "successively (\<lambda>x y. P y x) (rev (dropWhile isspace t))" by simp
  then have "successively (\<lambda>x y. P y x) (dropWhile isspace (rev (dropWhile isspace t)))"
    by (rule successively_dropWhile)
  then show ?thesis by (simp add: strip_def)
qed

lemma set_strip: "set (strip t) \<subseteq> set t"
  by (auto simp: strip_def dest!: set_dropWhileD)

text \<open>After a whitespace run that no period follows, the next character is not a period.\<close>

lemma run_not_before_period:
  assumes "successively (\<lambda>x y. \<not> (isspace x \<and> y = ord CHR ''.'')) (c # cs)" and "isspace c"
  shows "re_match [One (Lit (ord CHR ''.''))] (dropWhile isspace cs) = None"
  using assms
proof (induction cs arbitrary: c)
  case Nil
  show ?case by simp
next
  case (Cons d ds)
  then show ?case by (cases "isspace d") (auto simp: re_match_lit)
qed

lemma hd_collapse:
  "re_sub spaces_pattern (str '' '') (dropWhile isspace cs) = [] \<or>
   (dropWhile isspace cs \<noteq> [] \<and>
    hd (re_sub spaces_pattern (str '' '') (dropWhile isspace cs)) = hd (dropWhile isspace cs) \<and>
    \<not> isspace (hd (dropWhile isspace cs)))"
proof (cases "dropWhile isspace cs")
  case Nil
  show ?thesis unfolding Nil by simp
next
  case (Cons y t)
  have "\<not> isspace y" using hd_dropWhile[of isspace cs] unfolding Cons by simp
  then show ?thesis unfolding Cons by (simp add: re_sub_spaces_Cons)
qed

lemma collapse_spaces_only:
  "c \<in> set (re_sub spaces_pattern (str '' '') u) \<Longrightarrow> isspace c \<Longrightarrow> c = ord CHR '' ''"
  by (induction u rule: spaces_induct) (auto simp: re_sub_spaces_Cons)

lemma collapse_no_double:
  "successively (\<lambda>x y. \<not> (isspace x \<and> isspace y)) (re_sub spaces_pattern (str '' '') u)"
proof (induction u rule: spaces_induct)
  case Nil
  show ?case by simp
next
  case (Space c cs)
  then show ?case using hd_collapse[of cs]
    by (auto simp: re_sub_spaces_Cons successively_Cons)
next
  case (Other c cs)
  then show ?case by (simp add: re_sub_spaces_Cons successively_Cons)
qed

lemma collapse_keeps_period_rule:
  assumes "successively (\<lambda>x y. \<not> (isspace x \<and> y = ord CHR ''.'')) u"
  shows "successively (\<lambda>x y. \<not> (isspace x \<and> y = ord CHR ''.'')) (re_sub spaces_pattern (str '' '') u)"
  using assms
proof (induction u rule: spaces_induct)
  case Nil
  show ?case by simp
next
  case (Space c cs)
  from Space.prems have "successively (\<lambda>x y. \<not> (isspace x \<and> y = ord CHR ''.'')) cs"
    by (rule successively_tl)
  then have "successively (\<lambda>x y. \<not> (isspace x \<and> y = ord CHR ''.'')) (dropWhile isspace cs)"
    by (rule successively_dropWhile)
  then have ih: "successively (\<lambda>x y. \<not> (isspace x \<and> y = ord CHR ''.''))
      (re_sub spaces_pattern (str '' '') (dropWhile isspace cs))"
    by (rule Space.IH)
  have "re_match [One (Lit (ord CHR ''.''))] (dropWhile isspace cs) = None"
    using Space.prems Space.hyps by (rule run_not_before_period)
  then have "dropWhile isspace cs = [] \<or> hd (dropWhile isspace cs) \<noteq> ord CHR ''.''"
    by (auto simp: re_match_lit split: list.splits if_splits)
  then show ?case using hd_collapse[of cs] ih Space.hyps
    by (auto simp: re_sub_spaces_Cons successively_Cons)
next
  case (Other c cs)
  from Other.prems have "successively (\<lambda>x y. \<not> (isspace x \<and> y = ord CHR ''.'')) cs"
    by (rule successively_tl)
  then have "successively (\<lambda>x y. \<not> (isspace x \<and> y = ord CHR ''.''))
      (re_sub spaces_pattern (str '' '') cs)"
    by (rule Other.IH)
  then show ?case using Other.hyps by (simp add: re_sub_spaces_Cons successively_Cons)
qed

lemma hd_space_period:
  assumes "re_match space_period_pattern (c # cs) = None" and "isspace c"
  shows "re_sub space_period_pattern (str ''.'') cs = [] \<or>
         hd (re_sub space_period_pattern (str ''.'') cs) \<noteq> ord CHR ''.''"
proof (cases cs)
  case Nil
  then show ?thesis by simp
next
  case (Cons d ds)
  from assms have none: "re_match [One (Lit (ord CHR ''.''))] (dropWhile isspace (d # ds)) = None"
    unfolding Cons by (simp add: space_period_match)
  show ?thesis
  proof (cases "isspace d")
    case True
    with none have "re_match space_period_pattern (d # ds) = None"
      by (simp add: space_period_match)
    moreover from True have "d \<noteq> ord CHR ''.''" by auto
    ultimately show ?thesis unfolding Cons by (simp add: re_sub_space_period_Cons)
  next
    case False
    then have "re_match space_period_pattern (d # ds) = None"
      by (simp add: space_period_match)
    moreover from False none have "d \<noteq> ord CHR ''.''" by (simp add: re_match_lit split: if_splits)
    ultimately show ?thesis unfolding Cons by (simp add: re_sub_space_period_Cons)
  qed
qed

lemma space_period_result:
  "successively (\<lambda>x y. \<not> (isspace x \<and> y = ord CHR ''.'')) (re_sub space_period_pattern (str ''.'') v)"
proof (induction v rule: space_period_induct)
  case Nil
  show ?case by simp
next
  case (Match c cs rest)
  then show ?case by (simp add: re_sub_space_period_Cons successively_Cons)
next
  case (Other c cs)
  show ?case
  proof (cases "isspace c")
    case True
    with Other hd_space_period[OF Other.hyps True] show ?thesis
      by (auto simp: re_sub_space_period_Cons successively_Cons)
  next
    case False
    with Other show ?thesis by (simp add: re_sub_space_period_Cons successively_Cons)
  qed
qed

section \<open>The shape of a sanitized reply\<close>

lemma clean_response_spaces_only:
  "c \<in> set (clean_response s) \<Longrightarrow> isspace c \<Longrightarrow> c = ord CHR '' ''"
  unfolding clean_response_def Let_def
  using set_strip collapse_spaces_only by blast

lemma clean_response_no_double:
  "successively (\<lambda>x y. \<not> (isspace x \<and> isspace y)) (clean_response s)"
  unfolding clean_response_def Let_def
  by (rule successively_strip, rule collapse_no_double)

lemma clean_response_no_space_period:
  "successively (\<lambda>x y. \<not> (isspace x \<and> y = ord CHR ''.'')) (clean_response s)"
  unfolding clean_response_def Let_def
  by (rule successively_strip, rule collapse_keeps_period_rule, rule space_period_result)

lemma clean_response_ends:
  assumes "clean_response s \<noteq> []"
  shows "\<not> isspace (hd (clean_response s))" and "\<not> isspace (last (clean_response s))"
  using assms strip_ends unfolding clean_response_def Let_def by blast+


text \<open>
  Claim C7. In the output of \<open>clean_response\<close> no two whitespace characters are
  adjacent, no whitespace character stands immediately before a period (the last one
  included), and the output neither starts nor ends with whitespace.
\<close>

theorem C7_whitespace_normal_form:
  "(\<forall>i. Suc i < length (clean_response s) \<longrightarrow>
      \<not> (isspace (clean_response s ! i) \<and> isspace (clean_response s ! Suc i))) \<and>
   (\<forall>i. Suc i < length (clean_response s) \<longrightarrow> clean_response s ! Suc i = ord CHR ''.'' \<longrightarrow>
      \<not> isspace (clean_response s ! i)) \<and>
   (clean_response s \<noteq> [] \<longrightarrow>
      \<not> isspace (hd (clean_response s)) \<and> \<not> isspace (last (clean_response s)))"
proof (intro conjI allI impI)
  fix i assume "Suc i < length (clean_response s)"
  from successively_nth[OF clean_response_no_double this]
  show "\<not> (isspace (clean_response s ! i) \<and> isspace (clean_response s ! Suc i))" .
next
  fix i assume "Suc i < length (clean_response s)" and "clean_response s ! Suc i = ord CHR ''.''"
  with successively_nth[OF clean_response_no_space_period, of i s]
  show "\<not> isspace (clean_response s ! i)" by simp
next
  assume "clean_response s \<noteq> []"
  then show "\<not> isspace (hd (clean_response s))" by (rule clean_response_ends)
next
  assume "clean_response s \<noteq> []"
  then show "\<not> isspace (last (clean_response s))" by (rule clean_response_ends)
qed

theorem C7_whitespace_normal_form_witness:
  "clean_response (str ''  We offer  consulting . [doc1]  '') = str ''We offer consulting.'' \<and>
   \<not> (isspace ((str ''We offer consulting.'') ! 2) \<and> isspace ((str ''We offer consulting.'') ! Suc 2)) \<and>
   \<not> isspace ((str ''We offer consulting.'') ! 18) \<and>
   \<not> isspace (hd (str ''We offer consulting.'')) \<and> \<not> isspace (last (str ''We offer consulting.''))"
proof -
  have out: "clean_response (str ''  We offer  consulting . [doc1]  '') = str ''We offer consulting.''"
    by code_simp
  have dot: "(str ''We offer consulting.'') ! Suc 18 = ord CHR ''.''" by simp
  show ?thesis
    using C7_whitespace_normal_form[of "(str ''  We offer  consulting . [doc1]  '')"] dot
    unfolding out by (simp add: isspace_def whitespace_def)
qed

section \<open>Citation markers through the sanitizer\<close>

lemma citation_prefix_iff:
  "citation_prefix s \<longleftrightarrow>
     (\<exists>ds post. ds \<noteq> [] \<and> (\<forall>d\<in>set ds. isdecimal d) \<and> s = str ''[doc'' @ ds @ str '']'' @ post)"
proof
  assume cp: "citation_prefix s"
  let ?ds = "takeWhile isdecimal (drop 4 s)"
  let ?dw = "dropWhile isdecimal (drop 4 s)"
  from cp have t4: "take 4 s = str ''[doc''" and ne: "?ds \<noteq> []" and t1: "take 1 ?dw = str '']''"
    by (simp_all add: citation_prefix_def)
  have dw: "(str '']'') @ drop 1 ?dw = ?dw"
    using append_take_drop_id[of 1 ?dw] unfolding t1 .
  have d4: "?ds @ ?dw = drop 4 s" by (rule takeWhile_dropWhile_id)
  have "(str ''[doc'') @ drop 4 s = s"
    using append_take_drop_id[of 4 s] unfolding t4 .
  then have "s = str ''[doc'' @ ?ds @ str '']'' @ drop 1 ?dw"
    unfolding dw d4 by (rule sym)
  moreover have "\<forall>d\<in>set ?ds. isdecimal d" by (auto dest: set_takeWhileD)
  ultimately show "\<exists>ds post. ds \<noteq> [] \<and> (\<forall>d\<in>set ds. isdecimal d) \<and> s = str ''[doc'' @ ds @ str '']'' @ post"
    using ne by blast
next
  assume "\<exists>ds post. ds \<noteq> [] \<and> (\<forall>d\<in>set ds. isdecimal d) \<and> s = str ''[doc'' @ ds @ str '']'' @ post"
  then obtain ds post where ne: "ds \<noteq> []" and dig: "\<forall>d\<in>set ds. isdecimal d"
    and s: "s = str ''[doc'' @ ds @ str '']'' @ post"
    by blast
  have nd: "\<not> isdecimal (ord CHR '']'')" by simp
  have d4: "drop 4 s = ds @ ord CHR '']'' # post" using s by simp
  have tw: "takeWhile isdecimal (ds @ ord CHR '']'' # post) = ds"
    using dig nd by (simp add: takeWhile_append2)
  have dw: "dropWhile isdecimal (ds @ ord CHR '']'' # post) = ord CHR '']'' # post"
    using dig nd by (simp add: dropWhile_append2)
  show "citation_prefix s"
    unfolding citation_prefix_def d4 tw dw using ne s by simp
qed

lemma has_citation_iff:
  "has_citation s \<longleftrightarrow>
     (\<exists>pre ds post. ds \<noteq> [] \<and> (\<forall>d\<in>set ds. isdecimal d) \<and>
        s = pre @ str ''[doc'' @ ds @ str '']'' @ post)"
proof (induction s)
  case Nil
  show ?case by simp
next
  case (Cons c cs)
  show ?case
  proof
    assume "has_citation (c # cs)"
    then consider "citation_prefix (c # cs)" | "has_citation cs" by auto
    then show "\<exists>pre ds post. ds \<noteq> [] \<and> (\<forall>d\<in>set ds. isdecimal d) \<and>
        c # cs = pre @ str ''[doc'' @ ds @ str '']'' @ post"
    proof cases
      case 1
      then obtain ds post where "ds \<noteq> []" "\<forall>d\<in>set ds. isdecimal d"
        "c # cs = [] @ str ''[doc'' @ ds @ str '']'' @ post"
        unfolding citation_prefix_iff by auto
      then show ?thesis by blast
    next
      case 2
      then obtain pre ds post where "ds \<noteq> []" "\<forall>d\<in>set ds. isdecimal d"
        "cs = pre @ str ''[doc'' @ ds @ str '']'' @ post"
        unfolding Cons.IH by blast
      then have "c # cs = (c # pre) @ str ''[doc'' @ ds @ str '']'' @ post" by simp
      with \<open>ds \<noteq> []\<close> \<open>\<forall>d\<in>set ds. isdecimal d\<close> show ?thesis by blast
    qed
  next
    assume "\<exists>pre ds post. ds \<noteq> [] \<and> (\<forall>d\<in>set ds. isdecimal d) \<and>
        c # cs = pre @ str ''[doc'' @ ds @ str '']'' @ post"
    then obtain pre ds post where ne: "ds \<noteq> []" and dig: "\<forall>d\<in>set ds. isdecimal d"
      and eq: "c # cs = pre @ str ''[doc'' @ ds @ str '']'' @ post"
      by blast
    show "has_citation (c # cs)"
    proof (cases pre)
      case Nil
      with ne dig eq have "citation_prefix (c # cs)"
        unfolding citation_prefix_iff by auto
      then show ?thesis by simp
    next
      case (Cons p pre')
      with eq have "cs = pre' @ str ''[doc'' @ ds @ str '']'' @ post" by simp
      with ne dig have "has_citation cs" unfolding Cons.IH by blast
      then show ?thesis by simp
    qed
  qed
qed

lemma isdecimal_solid: "isdecimal d \<Longrightarrow> solid d"
  using isspace_not_decimal[of d] by (auto simp: solid_def)

lemma citation_prefix_append: "citation_prefix p \<Longrightarrow> citation_prefix (p @ q)"
  unfolding citation_prefix_iff by auto

lemma citation_prefix_solid: "citation_prefix s \<longleftrightarrow> citation_prefix (takeWhile solid s)"
proof
  assume "citation_prefix s"
  then obtain ds post where ne: "ds \<noteq> []" and dig: "\<forall>d\<in>set ds. isdecimal d"
    and s: "s = str ''[doc'' @ ds @ str '']'' @ post"
    unfolding citation_prefix_iff by blast
  have "\<forall>x\<in>set ((str ''[doc'') @ ds @ str '']''). solid x"
    using dig isdecimal_solid by (auto simp: solid_def)
  then have "takeWhile solid (((str ''[doc'') @ ds @ str '']'') @ post) =
      ((str ''[doc'') @ ds @ str '']'') @ takeWhile solid post"
    by (intro takeWhile_append2) blast
  then have "takeWhile solid s = str ''[doc'' @ ds @ str '']'' @ takeWhile solid post"
    using s by simp
  with ne dig show "citation_prefix (takeWhile solid s)"
    unfolding citation_prefix_iff by blast
next
  assume "citation_prefix (takeWhile solid s)"
  then have "citation_prefix (takeWhile solid s @ dropWhile solid s)"
    by (rule citation_prefix_append)
  then show "citation_prefix s" by simp
qed

lemma citation_prefix_not_solid: "\<not> solid c \<Longrightarrow> \<not> citation_prefix (c # cs)"
  using citation_prefix_solid[of "c # cs"] by (simp add: citation_prefix_def)

lemma has_citation_skip: "\<not> solid c \<Longrightarrow> has_citation (c # cs) = has_citation cs"
  by (simp add: citation_prefix_not_solid)

lemma has_citation_dropWhile: "has_citation (dropWhile isspace s) = has_citation s"
  by (induction s) (simp_all add: has_citation_skip solid_def del: has_citation.simps(2))

lemma takeWhile_solid_collapse:
  "takeWhile solid (re_sub spaces_pattern (str '' '') u) = takeWhile solid u"
  by (induction u rule: spaces_induct) (auto simp: re_sub_spaces_Cons solid_def)

lemma takeWhile_solid_space_period:
  "takeWhile solid (re_sub space_period_pattern (str ''.'') v) = takeWhile solid v"
proof (induction v rule: space_period_induct)
  case Nil
  show ?case by simp
next
  case (Match c cs rest)
  then have "isspace c" by (simp add: space_period_match split: if_splits)
  then show ?case using Match.hyps by (simp add: re_sub_space_period_Cons solid_def)
next
  case (Other c cs)
  then show ?case by (simp add: re_sub_space_period_Cons)
qed

lemma has_citation_collapse:
  "has_citation (re_sub spaces_pattern (str '' '') u) = has_citation u"
proof (induction u rule: spaces_induct)
  case Nil
  show ?case by simp
next
  case (Space c cs)
  have "has_citation (re_sub spaces_pattern (str '' '') (c # cs)) =
      has_citation ((ord CHR '' '') # re_sub spaces_pattern (str '' '') (dropWhile isspace cs))"
    using Space.hyps by (simp add: re_sub_spaces_Cons)
  also have "\<dots> = has_citation (dropWhile isspace cs)"
    using Space.IH by (simp add: has_citation_skip solid_def del: has_citation.simps(2))
  also have "\<dots> = has_citation (c # cs)"
    using Space.hyps by (simp add: has_citation_dropWhile has_citation_skip solid_def
        del: has_citation.simps(2))
  finally show ?case .
next
  case (Other c cs)
  have "citation_prefix (re_sub spaces_pattern (str '' '') (c # cs)) = citation_prefix (c # cs)"
    using citation_prefix_solid[of "re_sub spaces_pattern (str '' '') (c # cs)"]
      citation_prefix_solid[of "c # cs"]
    unfolding takeWhile_solid_collapse by simp
  then show ?case using Other by (simp add: re_sub_spaces_Cons)
qed

lemma has_citation_space_period:
  "has_citation (re_sub space_period_pattern (str ''.'') v) = has_citation v"
proof (induction v rule: space_period_induct)
  case Nil
  show ?case by simp
next
  case (Match c cs rest)
  then have c: "isspace c" and dw: "dropWhile isspace cs = ord CHR ''.'' # rest"
    by (auto simp: space_period_match re_match_lit split: if_splits list.splits)
  have "has_citation (re_sub space_period_pattern (str ''.'') (c # cs)) =
      has_citation ((ord CHR ''.'') # re_sub space_period_pattern (str ''.'') rest)"
    using Match.hyps by (simp add: re_sub_space_period_Cons)
  also have "\<dots> = has_citation rest"
    using Match.IH by (simp add: has_citation_skip solid_def del: has_citation.simps(2))
  also have "\<dots> = has_citation ((ord CHR ''.'') # rest)"
    by (simp add: has_citation_skip solid_def del: has_citation.simps(2))
  also have "\<dots> = has_citation cs"
    using has_citation_dropWhile[of cs] unfolding dw by simp
  also have "\<dots> = has_citation (c # cs)"
    using c by (simp add: has_citation_skip solid_def del: has_citation.simps(2))
  finally show ?case .
next
  case (Other c cs)
  have "citation_prefix (re_sub space_period_pattern (str ''.'') (c # cs)) = citation_prefix (c # cs)"
    using citation_prefix_solid[of "re_sub space_period_pattern (str ''.'') (c # cs)"]
      citation_prefix_solid[of "c # cs"]
    unfolding takeWhile_solid_space_period by simp
  then show ?case using Other by (simp add: re_sub_space_period_Cons)
qed

lemma takeWhile_append_stop: "takeWhile P w = [] \<Longrightarrow> takeWhile P (xs @ w) = takeWhile P xs"
  by (induction xs) simp_all

lemma has_citation_spaces_after:
  assumes "\<forall>x\<in>set w. isspace x"
  shows "has_citation (p @ w) = has_citation p"
proof (induction p)
  case Nil
  have dw: "dropWhile isspace w = []" using assms by simp
  have "has_citation [] = has_citation w"
    using has_citation_dropWhile[of w] unfolding dw .
  then show ?case by simp
next
  case (Cons c p)
  have w: "takeWhile solid w = []" using assms by (cases w) (simp_all add: solid_def)
  have "takeWhile solid ((c # p) @ w) = takeWhile solid (c # p)"
    using w by (rule takeWhile_append_stop)
  then have "citation_prefix ((c # p) @ w) = citation_prefix (c # p)"
    using citation_prefix_solid[of "(c # p) @ w"] citation_prefix_solid[of "c # p"] by simp
  then show ?case using Cons.IH by simp
qed

lemma rev_dropWhile_rev:
  "rev (dropWhile P (rev y)) @ rev (takeWhile P (rev y)) = y"
proof -
  have "rev (takeWhile P (rev y) @ dropWhile P (rev y)) = y"
    by (simp only: takeWhile_dropWhile_id rev_rev_ident)
  then show ?thesis by (simp only: rev_append)
qed

lemma has_citation_strip: "has_citation (strip t) = has_citation t"
proof -
  let ?y = "dropWhile isspace t"
  have split: "strip t @ rev (takeWhile isspace (rev ?y)) = ?y"
    unfolding strip_def by (rule rev_dropWhile_rev)
  have "\<forall>x\<in>set (rev (takeWhile isspace (rev ?y))). isspace x"
    by (auto dest: set_takeWhileD)
  from has_citation_spaces_after[OF this, of "strip t"]
  have "has_citation ?y = has_citation (strip t)" unfolding split .
  then show ?thesis by (simp add: has_citation_dropWhile)
qed

lemma clean_response_citation:
  "has_citation (clean_response s) = has_citation (re_sub citation_pattern [] s)"
  unfolding clean_response_def Let_def has_citation_strip has_citation_collapse
    has_citation_space_period by (rule refl)

lemma re_sub_citation_fixed: "\<not> has_citation t \<Longrightarrow> re_sub citation_pattern r t = t"
  by (induction t) (simp_all add: re_sub_citation_Cons)

lemma re_sub_space_period_fixed:
  "successively (\<lambda>x y. \<not> (isspace x \<and> y = ord CHR ''.'')) t \<Longrightarrow>
     re_sub space_period_pattern r t = t"
proof (induction t)
  case Nil
  show ?case by simp
next
  case (Cons c cs)
  have "re_match space_period_pattern (c # cs) = None"
    using run_not_before_period[OF Cons.prems] by (simp add: space_period_match)
  moreover have "re_sub space_period_pattern r cs = cs"
    using Cons.prems by (intro Cons.IH) (rule successively_tl)
  ultimately show ?case by (simp add: re_sub_space_period_Cons)
qed

lemma re_sub_spaces_fixed:
  assumes "\<forall>c\<in>set t. isspace c \<longrightarrow> c = ord CHR '' ''"
    and "successively (\<lambda>x y. \<not> (isspace x \<and> isspace y)) t"
  shows "re_sub spaces_pattern (str '' '') t = t"
  using assms
proof (induction t)
  case Nil
  show ?case by simp
next
  case (Cons c cs)
  have ih: "re_sub spaces_pattern (str '' '') cs = cs"
    using Cons.prems by (intro Cons.IH) (auto dest: successively_tl)
  show ?case
  proof (cases "isspace c")
    case True
    then have c: "c = ord CHR '' ''" using Cons.prems(1) by simp
    have "cs = [] \<or> \<not> isspace (hd cs)"
      using Cons.prems(2) True by (auto simp: successively_Cons)
    then have "dropWhile isspace cs = cs" by (cases cs) auto
    then show ?thesis using True c ih by (simp add: re_sub_spaces_Cons)
  next
    case False
    then show ?thesis using ih by (simp add: re_sub_spaces_Cons)
  qed
qed

lemma dropWhile_hd_id: "xs \<noteq> [] \<Longrightarrow> \<not> P (hd xs) \<Longrightarrow> dropWhile P xs = xs"
  by (cases xs) simp_all

lemma strip_fixed:
  assumes "t = [] \<or> (\<not> isspace (hd t) \<and> \<not> isspace (last t))"
  shows "strip t = t"
proof (cases t)
  case Nil
  then show ?thesis by (simp add: strip_def)
next
  case (Cons c cs)
  with assms have h: "\<not> isspace (hd t)" and l: "\<not> isspace (last t)" by auto
  have front: "dropWhile isspace t = t" using h Cons by simp
  have "rev t \<noteq> []" using Cons by simp
  moreover have "hd (rev t) = last t" using Cons by (simp add: hd_rev)
  ultimately have "dropWhile isspace (rev t) = rev t" using l
    by (intro dropWhile_hd_id) simp_all
  then show ?thesis unfolding strip_def front by simp
qed

lemma clean_response_fixed:
  assumes "\<not> has_citation (clean_response s)"
  shows "clean_response (clean_response s) = clean_response s"
proof -
  let ?t = "clean_response s"
  have 1: "re_sub citation_pattern [] ?t = ?t" using assms by (rule re_sub_citation_fixed)
  have 2: "re_sub space_period_pattern (str ''.'') ?t = ?t"
    using clean_response_no_space_period by (rule re_sub_space_period_fixed)
  have 3: "re_sub spaces_pattern (str '' '') ?t = ?t"
    using clean_response_spaces_only clean_response_no_double
    by (intro re_sub_spaces_fixed) blast+
  have 4: "strip ?t = ?t"
    using clean_response_ends[of s] by (intro strip_fixed) blast
  have "clean_response ?t = strip (re_sub spaces_pattern (str '' '')
      (re_sub space_period_pattern (str ''.'') (re_sub citation_pattern [] ?t)))"
    by (simp add: clean_response_def Let_def)
  then show ?thesis unfolding 1 2 3 4 .
qed

lemma length_re_sub_citation: "length (re_sub citation_pattern [] t) \<le> length t"
proof (induction t rule: citation_induct)
  case Nil
  show ?case by simp
next
  case (Match c cs)
  have "length (drop 1 (dropWhile isdecimal (drop 4 (c # cs)))) \<le> length (c # cs)"
    using length_drop_dropWhile[of 1 isdecimal 4 "c # cs"] by simp
  with Match show ?case by (simp add: re_sub_citation_Cons del: drop_Cons_numeral)
next
  case (Other c cs)
  then show ?case by (simp add: re_sub_citation_Cons)
qed

lemma length_re_sub_citation_less:
  "has_citation t \<Longrightarrow> length (re_sub citation_pattern [] t) < length t"
proof (induction t)
  case Nil
  then show ?case by simp
next
  case (Cons c cs)
  show ?case
  proof (cases "citation_prefix (c # cs)")
    case True
    let ?rest = "drop 1 (dropWhile isdecimal (drop 4 (c # cs)))"
    have "length ?rest < length (c # cs)"
      using length_drop_dropWhile[of 1 isdecimal 4 "c # cs"] by simp
    moreover have "length (re_sub citation_pattern [] ?rest) \<le> length ?rest"
      by (rule length_re_sub_citation)
    ultimately show ?thesis using True
      by (simp add: re_sub_citation_Cons del: drop_Cons_numeral)
  next
    case False
    with Cons.prems have "has_citation cs" by simp
    then have "length (re_sub citation_pattern [] cs) < length cs" by (rule Cons.IH)
    then show ?thesis using False by (simp add: re_sub_citation_Cons)
  qed
qed

lemma length_re_sub_space_period: "length (re_sub space_period_pattern (str ''.'') v) \<le> length v"
proof (induction v rule: space_period_induct)
  case Nil
  show ?case by simp
next
  case (Match c cs rest)
  then have "length rest < length (dropWhile isspace cs)"
    by (auto simp: space_period_match re_match_lit split: if_splits list.splits)
  then have "length rest < length cs"
    using length_dropWhile_le[of isspace cs] by simp
  with Match show ?case by (simp add: re_sub_space_period_Cons)
next
  case (Other c cs)
  then show ?case by (simp add: re_sub_space_period_Cons)
qed

lemma length_re_sub_spaces: "length (re_sub spaces_pattern (str '' '') u) \<le> length u"
proof (induction u rule: spaces_induct)
  case Nil
  show ?case by simp
next
  case (Space c cs)
  then show ?case using length_dropWhile_le[of isspace cs]
    by (simp add: re_sub_spaces_Cons)
next
  case (Other c cs)
  then show ?case by (simp add: re_sub_spaces_Cons)
qed

lemma length_strip: "length (strip t) \<le> length t"
proof -
  have "length (strip t) \<le> length (rev (dropWhile isspace t))"
    using length_dropWhile_le[of isspace "rev (dropWhile isspace t)"] by (simp add: strip_def)
  also have "\<dots> \<le> length t"
    using length_dropWhile_le[of isspace t] by simp
  finally show ?thesis .
qed

lemma length_clean_response_less:
  assumes "has_citation t"
  shows "length (clean_response t) < length t"
proof -
  have "length (clean_response t) \<le>
      length (re_sub spaces_pattern (str '' '')
        (re_sub space_period_pattern (str ''.'') (re_sub citation_pattern [] t)))"
    unfolding clean_response_def Let_def by (rule length_strip)
  also have "\<dots> \<le> length (re_sub space_period_pattern (str ''.'') (re_sub citation_pattern [] t))"
    by (rule length_re_sub_spaces)
  also have "\<dots> \<le> length (re_sub citation_pattern [] t)"
    by (rule length_re_sub_space_period)
  also have "\<dots> < length t" using assms by (rule length_re_sub_citation_less)
  finally show ?thesis .
qed

text \<open>Inside a marker no character after the first is an opening bracket.\<close>

lemma citation_prefix_inner:
  "citation_prefix (a # rest) \<longleftrightarrow>
     citation_prefix (a # takeWhile (\<lambda>c. c \<noteq> ord CHR ''['') rest)"
proof
  assume "citation_prefix (a # rest)"
  then obtain ds post where ne: "ds \<noteq> []" and dig: "\<forall>d\<in>set ds. isdecimal d"
    and s: "a # rest = str ''[doc'' @ ds @ str '']'' @ post"
    unfolding citation_prefix_iff by blast
  then have a: "a = ord CHR ''[''" and rest: "rest = ((str ''doc'') @ ds @ str '']'') @ post" by simp_all
  have "\<forall>x\<in>set ((str ''doc'') @ ds @ str '']''). x \<noteq> ord CHR ''[''"
    using dig by auto
  then have "takeWhile (\<lambda>c. c \<noteq> ord CHR ''['') rest =
      ((str ''doc'') @ ds @ str '']'') @ takeWhile (\<lambda>c. c \<noteq> ord CHR ''['') post"
    unfolding rest by (intro takeWhile_append2) blast
  then have "a # takeWhile (\<lambda>c. c \<noteq> ord CHR ''['') rest =
      (str ''[doc'') @ ds @ str '']'' @ takeWhile (\<lambda>c. c \<noteq> ord CHR ''['') post"
    using a by simp
  with ne dig show "citation_prefix (a # takeWhile (\<lambda>c. c \<noteq> ord CHR ''['') rest)"
    unfolding citation_prefix_iff by blast
next
  assume "citation_prefix (a # takeWhile (\<lambda>c. c \<noteq> ord CHR ''['') rest)"
  then have "citation_prefix ((a # takeWhile (\<lambda>c. c \<noteq> ord CHR ''['') rest) @
      dropWhile (\<lambda>c. c \<noteq> ord CHR ''['') rest)"
    by (rule citation_prefix_append)
  then show "citation_prefix (a # rest)" by simp
qed

lemma citation_prefix_before_bracket:
  "citation_prefix ((a # x) @ ord CHR ''['' # y) \<longleftrightarrow> citation_prefix (a # x)"
proof -
  have "takeWhile (\<lambda>c. c \<noteq> ord CHR ''['') (x @ ord CHR ''['' # y) = takeWhile (\<lambda>c. c \<noteq> ord CHR ''['') x"
    by (rule takeWhile_append_stop) simp
  then show ?thesis
    using citation_prefix_inner[of a "x @ ord CHR ''['' # y"] citation_prefix_inner[of a x]
    by simp
qed

lemma re_sub_citation_at:
  assumes "n \<noteq> []" and "\<forall>d\<in>set n. isdecimal d"
  shows "re_sub citation_pattern r ((str ''[doc'') @ n @ str '']'' @ post) = r @ re_sub citation_pattern r post"
proof -
  have nd: "\<not> isdecimal (ord CHR '']'')" by simp
  have cp: "citation_prefix ((str ''[doc'') @ n @ str '']'' @ post)"
    unfolding citation_prefix_iff using assms by blast
  have "dropWhile isdecimal (n @ ord CHR '']'' # post) = ord CHR '']'' # post"
    using assms(2) nd by (simp add: dropWhile_append2)
  then have "drop 1 (dropWhile isdecimal (drop 4 ((str ''[doc'') @ n @ str '']'' @ post))) = post"
    by simp
  then show ?thesis using cp re_sub_citation_Cons[of r "(ord CHR ''['')" "(str ''doc'') @ n @ str '']'' @ post"]
    by simp
qed

lemma re_sub_citation_after_plain:
  assumes "\<not> has_citation pre" and "n \<noteq> []" and "\<forall>d\<in>set n. isdecimal d"
  shows "re_sub citation_pattern r (pre @ str ''[doc'' @ n @ str '']'' @ post) =
         pre @ r @ re_sub citation_pattern r post"
  using assms(1)
proof (induction pre)
  case Nil
  show ?case using re_sub_citation_at[OF assms(2,3)] by simp
next
  case (Cons c pre)
  then have no: "\<not> citation_prefix (c # pre)" and rest: "\<not> has_citation pre" by simp_all
  have "\<not> citation_prefix ((c # pre) @ ord CHR ''['' # ((str ''doc'') @ n @ str '']'' @ post))"
    using no unfolding citation_prefix_before_bracket .
  then have "\<not> citation_prefix (c # pre @ str ''[doc'' @ n @ str '']'' @ post)" by simp
  then show ?case using Cons.IH[OF rest] by (simp add: re_sub_citation_Cons)
qed

lemma has_citation_append_left: "has_citation a \<Longrightarrow> has_citation (a @ b)"
  unfolding has_citation_iff by (metis append.assoc)

lemma has_citation_append_right: "has_citation b \<Longrightarrow> has_citation (a @ b)"
  unfolding has_citation_iff by (metis append.assoc)

lemma re_sub_with_citations:
  assumes "\<forall>(t, n)\<in>set pieces. n \<noteq> [] \<and> (\<forall>d\<in>set n. isdecimal d)"
    and "\<not> has_citation (concat (map fst pieces) @ t')"
  shows "re_sub citation_pattern [] (with_citations pieces t') = concat (map fst pieces) @ t'"
  using assms
proof (induction pieces)
  case Nil
  then show ?case by (simp add: re_sub_citation_fixed)
next
  case (Cons p pieces)
  obtain t n where p: "p = (t, n)" by (cases p)
  from Cons.prems(1) p have n: "n \<noteq> []" "\<forall>d\<in>set n. isdecimal d" by auto
  from Cons.prems(2) p have "\<not> has_citation (t @ (concat (map fst pieces) @ t'))" by simp
  then have t: "\<not> has_citation t" and rest: "\<not> has_citation (concat (map fst pieces) @ t')"
    using has_citation_append_left has_citation_append_right by blast+
  have "re_sub citation_pattern [] (with_citations pieces t') = concat (map fst pieces) @ t'"
    using Cons.prems(1) rest by (intro Cons.IH) auto
  then show ?case
    using re_sub_citation_after_plain[OF t n, of "[]" "with_citations pieces t'"] p by simp
qed

text \<open>
  Markers whose number is written with other digits than \<open>0\<close>..\<open>9\<close> are deleted like the
  others (here ARABIC-INDIC DIGIT ONE and TWO, U+0661 and U+0662), and they too can be
  left behind by the single scan.
\<close>

lemma arabic_indic_marker_removed:
  "clean_response (str ''See [doc'' @ [1633, 1634] @ str ''] .'') = str ''See.''"
  by code_simp

lemma arabic_indic_marker_left:
  "clean_response (str ''[doc[doc1]'' @ [1633] @ str '']'') = str ''[doc'' @ [1633] @ str '']''"
  "has_citation (str ''[doc'' @ [1633] @ str '']'')"
  "clean_response (str ''[doc'' @ [1633] @ str '']'') = []"
  by code_simp+

section \<open>The claims about citation markers and idempotence\<close>

text \<open>
  Claim C2, as stated, fails: the markers are deleted in one scan from the left, and
  deleting a marker can join the text around it into a new one. The sanitized form of
  \<open>[doc[doc1]1]\<close> is \<open>[doc1]\<close>.
\<close>

theorem C2_nested_citation_survives:
  "has_citation (clean_response (str ''[doc[doc1]1]''))"
proof -
  have "clean_response (str ''[doc[doc1]1]'') = str ''[doc1]''" by code_simp
  moreover have "has_citation (str ''[doc1]'')" by code_simp
  ultimately show ?thesis by simp
qed

text \<open>
  Claim C2, amended. For every input made of a text without citation marker into which
  zero or more markers \<open>[docN]\<close> were inserted, the output of \<open>clean_response\<close> contains
  no marker. Here \<open>N\<close> is one or more decimal digits in the sense of the pattern's \<open>\d\<close>,
  the digits of every script of Unicode and not only \<open>0\<close>..\<open>9\<close>, in the markers inserted
  as in the markers that the text and the output are free of.
\<close>

theorem C2_inserted_citations_removed:
  assumes "\<forall>(t, n)\<in>set pieces. n \<noteq> [] \<and> (\<forall>d\<in>set n. isdecimal d)"
    and "\<not> has_citation (concat (map fst pieces) @ t')"
  shows "\<not> has_citation (clean_response (with_citations pieces t'))"
  unfolding clean_response_citation re_sub_with_citations[OF assms] using assms(2) .

theorem C2_inserted_citations_removed_witness:
  "with_citations [((str ''We offer consulting ''), (str ''1'')), ((str '' and training ''), (str ''23''))] (str ''.'') =
     (str ''We offer consulting [doc1] and training [doc23].'') \<and>
   clean_response (str ''We offer consulting [doc1] and training [doc23].'') =
     (str ''We offer consulting and training.'') \<and>
   \<not> has_citation (clean_response (str ''We offer consulting [doc1] and training [doc23].''))"
proof -
  let ?pieces = "[((str ''We offer consulting ''), (str ''1'')), ((str '' and training ''), (str ''23''))]"
  have digits: "\<forall>(t, n)\<in>set ?pieces. n \<noteq> [] \<and> (\<forall>d\<in>set n. isdecimal d)"
    by (simp add: isdecimal_def decimal_ranges_def)
  have plain: "\<not> has_citation (concat (map fst ?pieces) @ str ''.'')"
    by code_simp
  have woven: "with_citations ?pieces (str ''.'') = str ''We offer consulting [doc1] and training [doc23].''"
    by simp
  have out: "clean_response (str ''We offer consulting [doc1] and training [doc23].'') =
      (str ''We offer consulting and training.'')"
    by code_simp
  from C2_inserted_citations_removed[OF digits plain] woven out show ?thesis by simp
qed

text \<open>
  Claim C6, as stated, fails: sanitizing \<open>[doc[doc1]1]\<close> gives \<open>[doc1]\<close>, and sanitizing
  that gives the empty text.
\<close>

theorem C6_second_pass_differs:
  "clean_response (clean_response (str ''[doc[doc1]1]'')) \<noteq> clean_response (str ''[doc[doc1]1]'')"
proof -
  have "clean_response (str ''[doc[doc1]1]'') = str ''[doc1]''" by code_simp
  moreover have "clean_response (str ''[doc1]'') = []" by code_simp
  ultimately show ?thesis by simp
qed

text \<open>
  Claim C6, amended. Sanitizing a sanitized reply again gives the same text exactly
  when the sanitized reply contains no citation marker, a marker being \<open>[doc\<close>, one or
  more decimal digits in the sense of the pattern's \<open>\d\<close> (the digits of every script of
  Unicode) and \<open>]\<close>.
\<close>

theorem C6_idempotent_iff_no_citation_left:
  "clean_response (clean_response s) = clean_response s \<longleftrightarrow>
     \<not> has_citation (clean_response s)"
proof
  assume same: "clean_response (clean_response s) = clean_response s"
  show "\<not> has_citation (clean_response s)"
  proof
    assume "has_citation (clean_response s)"
    then have "length (clean_response (clean_response s)) < length (clean_response s)"
      by (rule length_clean_response_less)
    with same show False by simp
  qed
next
  assume "\<not> has_citation (clean_response s)"
  then show "clean_response (clean_response s) = clean_response s"
    by (rule clean_response_fixed)
qed

theorem C6_idempotent_iff_no_citation_left_witness:
  "\<not> has_citation (clean_response (str ''We offer consulting. [doc1]'')) \<and>
   clean_response (clean_response (str ''We offer consulting. [doc1]'')) =
     clean_response (str ''We offer consulting. [doc1]'')"
proof -
  have out: "clean_response (str ''We offer consulting. [doc1]'') = str ''We offer consulting.''"
    by code_simp
  have none: "\<not> has_citation (clean_response (str ''We offer consulting. [doc1]''))"
    unfolding out by code_simp
  from none C6_idempotent_iff_no_citation_left[of "(str ''We offer consulting. [doc1]'')"]
  show ?thesis by blast
qed

end
